theory Spec2Isabelle
  imports Main "HOL-Library.Word"
begin

unbundle bit_operations_syntax

section \<open>Data model\<close>

text \<open>
  The program is the class \<open>TOTP\<close> of \<open>src/totp.js\<close>. Its data are:
  \<^item> \<open>Uint8Array\<close> values, modelled as lists of 8-bit words. A store into a typed array
    keeps the low 8 bits; a store outside the array is dropped, which is what list update
    does; a read outside the array gives \<open>undefined\<close>, which the bitwise operators of
    JavaScript turn into 0 (\<open>byte_at\<close>).
  \<^item> the 32-bit values of the SHA-1 engine, modelled as 32-bit words. The source computes
    them with the bitwise operators of JavaScript (results taken modulo \<open>2^32\<close>) and with
    additions of at most five such values on doubles, which are exact, followed by
    \<open>>>> 0\<close>; both agree with word arithmetic.
  \<^item> strings the program receives, modelled as lists of UTF-16 code units (natural
    numbers). What the engine supplies for them, the class \<open>\s\<close> of regular expressions and
    \<open>toUpperCase\<close>, is a parameter of the model (\<open>runtime\<close>). The strings the program builds
    itself (binary digits, decimal digits, \<open>ERROR\<close>) are lists of characters.
  \<^item> times and counters, non-negative integers in the range where doubles are exact,
    modelled as natural numbers.
\<close>

type_synonym u8 = "8 word"
type_synonym u32 = "32 word"

type_synonym code_unit = nat
type_synonym js_string = "code_unit list"

datatype error =
    InvalidBase32Character code_unit
  | RangeError

definition timeStep :: nat where
  "timeStep = 30"

definition codeDigits :: nat where
  "codeDigits = 6"

definition byte_at :: "u8 list \<Rightarrow> nat \<Rightarrow> u8" where
  "byte_at xs i = (if i < length xs then xs ! i else 0)"

text \<open>
  \<open>dst.set(src, off)\<close> on typed arrays copies \<open>src\<close> into \<open>dst\<close> from index \<open>off\<close>; it
  raises a \<open>RangeError\<close> when \<open>src\<close> does not fit.
\<close>

definition typed_set :: "u8 list \<Rightarrow> u8 list \<Rightarrow> nat \<Rightarrow> error + u8 list" where
  "typed_set dst src off =
     (if off + length src \<le> length dst
      then Inr (take off dst @ src @ drop (off + length src) dst)
      else Inl RangeError)"

section \<open>The SHA-1 engine\<close>

text \<open>
  \<open>rotateLeft(n, rotateCount)\<close> is \<open>((n << rotateCount) | (n >>> (32 - rotateCount))) >>> 0\<close>;
  JavaScript takes every shift count modulo 32.
\<close>

definition rotateLeft :: "u32 \<Rightarrow> nat \<Rightarrow> u32" where
  "rotateLeft n rotateCount =
     push_bit (rotateCount mod 32) n OR drop_bit ((32 - rotateCount mod 32) mod 32) n"

text \<open>
  \<open>x >>> n\<close> for a non-negative integer \<open>x\<close> held in a double and a non-negative shift
  count: \<open>x\<close> is taken modulo \<open>2^32\<close> and the count modulo 32.
\<close>

definition ushr :: "nat \<Rightarrow> nat \<Rightarrow> u32" where
  "ushr x n = drop_bit (n mod 32) (word_of_nat x)"

definition sha1_padded_length :: "nat \<Rightarrow> nat" where
  "sha1_padded_length n = n + 1 + (64 - (n + 1 + 8) mod 64) mod 64 + 8"

text \<open>The loop that writes the eight bytes of the length field, \<open>i\<close> from 0 to 7.\<close>

definition sha1_length_field :: "nat \<Rightarrow> u8 list \<Rightarrow> u8 list" where
  "sha1_length_field msgLength paddedData =
     fold (\<lambda>i pd. pd[length pd - 8 + i := ucast (ushr msgLength (56 - i * 8) AND 0xFF)])
       [0..<8] paddedData"

definition sha1_preprocess :: "u8 list \<Rightarrow> error + u8 list" where
  "sha1_preprocess data =
     (let msgLength = length data * 8;
          paddedData = replicate (sha1_padded_length (length data)) 0
      in case typed_set paddedData data 0 of
           Inl err \<Rightarrow> Inl err
         | Inr paddedData \<Rightarrow>
             Inr (sha1_length_field msgLength (paddedData[length data := 0x80])))"

definition chunk_words :: "u8 list \<Rightarrow> nat \<Rightarrow> u32 list" where
  "chunk_words paddedData chunk =
     map (\<lambda>i. push_bit 24 (ucast (byte_at paddedData (chunk + i * 4))) OR
              push_bit 16 (ucast (byte_at paddedData (chunk + i * 4 + 1))) OR
              push_bit 8 (ucast (byte_at paddedData (chunk + i * 4 + 2))) OR
              ucast (byte_at paddedData (chunk + i * 4 + 3)))
       [0..<16]"

definition extend_words :: "u32 list \<Rightarrow> u32 list" where
  "extend_words w16 =
     fold (\<lambda>i w. w @ [rotateLeft (w ! (i - 3) XOR w ! (i - 8) XOR w ! (i - 14) XOR w ! (i - 16)) 1])
       [16..<80] w16"

type_synonym sha1_state = "u32 \<times> u32 \<times> u32 \<times> u32 \<times> u32"

definition sha1_round :: "u32 list \<Rightarrow> nat \<Rightarrow> sha1_state \<Rightarrow> sha1_state" where
  "sha1_round w i s =
     (case s of (a, b, c, d, e) \<Rightarrow>
        let (f, k) =
              (if i < 20 then ((b AND c) OR (NOT b AND d), 0x5A827999)
               else if i < 40 then (b XOR c XOR d, 0x6ED9EBA1)
               else if i < 60 then ((b AND c) OR (b AND d) OR (c AND d), 0x8F1BBCDC)
               else (b XOR c XOR d, 0xCA62C1D6));
            temp = rotateLeft a 5 + f + e + k + w ! i
        in (temp, a, rotateLeft b 30, c, d))"

definition sha1_chunk :: "u8 list \<Rightarrow> nat \<Rightarrow> sha1_state \<Rightarrow> sha1_state" where
  "sha1_chunk paddedData chunk h =
     (case h of (h0, h1, h2, h3, h4) \<Rightarrow>
        let w = extend_words (chunk_words paddedData chunk)
        in case fold (sha1_round w) [0..<80] (h0, h1, h2, h3, h4) of
             (a, b, c, d, e) \<Rightarrow> (h0 + a, h1 + b, h2 + c, h3 + d, h4 + e))"

definition sha1_result :: "sha1_state \<Rightarrow> u8 list" where
  "sha1_result h =
     (case h of (h0, h1, h2, h3, h4) \<Rightarrow>
        concat (map (\<lambda>x. map (\<lambda>j. ucast (drop_bit (24 - j * 8) x AND 0xFF)) [0..<4])
                  [h0, h1, h2, h3, h4]))"

definition sha1_init :: sha1_state where
  "sha1_init = (0x67452301, 0xEFCDAB89, 0x98BADCFE, 0x10325476, 0xC3D2E1F0)"

text \<open>
  The chunk loop runs for \<open>chunk = 0, 64, 128, ...\<close> while \<open>chunk < paddedData.length\<close>.
\<close>

definition sha1_chunks :: "u8 list \<Rightarrow> sha1_state" where
  "sha1_chunks paddedData =
     fold (\<lambda>k. sha1_chunk paddedData (k * 64)) [0..<(length paddedData + 63) div 64] sha1_init"

definition sha1Simple :: "u8 list \<Rightarrow> error + u8 list" where
  "sha1Simple data =
     (case sha1_preprocess data of
        Inl err \<Rightarrow> Inl err
      | Inr paddedData \<Rightarrow> Inr (sha1_result (sha1_chunks paddedData)))"

section \<open>HMAC-SHA1\<close>

definition blockSize :: nat where
  "blockSize = 64"

text \<open>The loop that fills \<open>innerPad\<close> and \<open>outerPad\<close>, \<open>i\<close> from 0 to \<open>blockSize - 1\<close>.\<close>

definition hmac_pad :: "u8 \<Rightarrow> u8 list \<Rightarrow> u8 list" where
  "hmac_pad c paddedKey = map (\<lambda>i. byte_at paddedKey i XOR c) [0..<blockSize]"

text \<open>\<open>new Uint8Array(a.length + b.length)\<close>, then \<open>set(a)\<close> and \<open>set(b, a.length)\<close>.\<close>

definition join_arrays :: "u8 list \<Rightarrow> u8 list \<Rightarrow> error + u8 list" where
  "join_arrays a b =
     (case typed_set (replicate (length a + length b) 0) a 0 of
        Inl err \<Rightarrow> Inl err
      | Inr buf \<Rightarrow> typed_set buf b (length a))"

definition hmacSha1Simple :: "u8 list \<Rightarrow> u8 list \<Rightarrow> error + u8 list" where
  "hmacSha1Simple key message =
     (case (if length key > blockSize then sha1Simple key else Inr key) of
        Inl err \<Rightarrow> Inl err
      | Inr key \<Rightarrow>
         (case typed_set (replicate blockSize 0) key 0 of
            Inl err \<Rightarrow> Inl err
          | Inr paddedKey \<Rightarrow>
             (let innerPad = hmac_pad 0x36 paddedKey;
                  outerPad = hmac_pad 0x5c paddedKey
              in case join_arrays innerPad message of
                   Inl err \<Rightarrow> Inl err
                 | Inr innerData \<Rightarrow>
                    (case sha1Simple innerData of
                       Inl err \<Rightarrow> Inl err
                     | Inr innerHash \<Rightarrow>
                        (case join_arrays outerPad innerHash of
                           Inl err \<Rightarrow> Inl err
                         | Inr outerData \<Rightarrow> sha1Simple outerData)))))"

text \<open>
  \<open>hmacSha1\<close> first tries the platform: \<open>crypto.subtle\<close> may be absent (\<open>None\<close>); when
  present it is a function of key and message that returns a signature or throws
  (\<open>None\<close>), and a throw is caught and followed by the fallback. The platform is a
  parameter of the model.
\<close>

type_synonym subtle_crypto = "(u8 list \<Rightarrow> u8 list \<Rightarrow> u8 list option) option"

definition hmacSha1 :: "subtle_crypto \<Rightarrow> u8 list \<Rightarrow> u8 list \<Rightarrow> error + u8 list" where
  "hmacSha1 subtle key message =
     (case subtle of
        None \<Rightarrow> hmacSha1Simple key message
      | Some sign \<Rightarrow>
         (case sign key message of
            Some signature \<Rightarrow> Inr signature
          | None \<Rightarrow> hmacSha1Simple key message))"

section \<open>Strings and the runtime\<close>

text \<open>The code unit of an ASCII character, and the code units of a literal.\<close>

definition cu :: "char \<Rightarrow> code_unit" where
  "cu c = of_char c"

definition utf16 :: "string \<Rightarrow> js_string" where
  "utf16 s = map cu s"

text \<open>
  The two things the program asks of the JavaScript engine about strings: whether a code
  unit belongs to the class \<open>\s\<close>, and \<open>toUpperCase\<close>, which follows the Unicode case
  mapping and may change the number of code units.
\<close>

record runtime =
  whiteSpace :: "code_unit \<Rightarrow> bool"
  toUpperCase :: "js_string \<Rightarrow> js_string"

text \<open>\<open>s.replace(/c/g, d)\<close> for single characters, and \<open>s.replace(/[...]/g, '')\<close>.\<close>

definition replace_char :: "code_unit \<Rightarrow> code_unit \<Rightarrow> js_string \<Rightarrow> js_string" where
  "replace_char c d s = map (\<lambda>x. if x = c then d else x) s"

definition remove_chars :: "(code_unit \<Rightarrow> bool) \<Rightarrow> js_string \<Rightarrow> js_string" where
  "remove_chars cls s = filter (\<lambda>x. \<not> cls x) s"

text \<open>\<open>xs.indexOf(x)\<close>, with \<open>None\<close> for -1.\<close>

fun indexOf :: "'a list \<Rightarrow> 'a \<Rightarrow> nat option" where
  "indexOf [] x = None"
| "indexOf (y # ys) x = (if y = x then Some 0 else map_option Suc (indexOf ys x))"

definition digit_char :: "nat \<Rightarrow> char" where
  "digit_char d = ''0123456789abcdefghijklmnopqrstuvwxyz'' ! d"

text \<open>\<open>n.toString(radix)\<close> for a non-negative integer and a radix from 2 to 36.\<close>

function nat_toString :: "nat \<Rightarrow> nat \<Rightarrow> string" where
  "nat_toString radix n =
     (if radix < 2 \<or> n < radix then [digit_char n]
      else nat_toString radix (n div radix) @ [digit_char (n mod radix)])"
  by pat_completeness auto
termination
  by (relation "measure snd") auto

declare nat_toString.simps [simp del]

definition padStart :: "nat \<Rightarrow> char \<Rightarrow> string \<Rightarrow> string" where
  "padStart n c s = replicate (n - length s) c @ s"

text \<open>\<open>parseInt(s, 2)\<close> on a non-empty string of binary digits.\<close>

definition parseInt2 :: "string \<Rightarrow> nat" where
  "parseInt2 s = fold (\<lambda>c acc. 2 * acc + (if c = CHR ''1'' then 1 else 0)) s 0"

section \<open>Base32 decoding\<close>

definition base32Chars :: js_string where
  "base32Chars = utf16 ''ABCDEFGHIJKLMNOPQRSTUVWXYZ234567''"

text \<open>The first loop of \<open>base32Decode\<close>: it appends five binary digits per code unit.\<close>

fun base32_bits :: "string \<Rightarrow> js_string \<Rightarrow> error + string" where
  "base32_bits bits [] = Inr bits"
| "base32_bits bits (char # rest) =
     (case indexOf base32Chars char of
        None \<Rightarrow> Inl (InvalidBase32Character char)
      | Some index \<Rightarrow> base32_bits (bits @ padStart 5 CHR ''0'' (nat_toString 2 index)) rest)"

text \<open>The second loop: \<open>for (i = 0; i + 8 <= bits.length; i += 8)\<close>.\<close>

function base32_bytes :: "string \<Rightarrow> nat \<Rightarrow> nat list" where
  "base32_bytes bits i =
     (if i + 8 \<le> length bits
      then parseInt2 (take 8 (drop i bits)) # base32_bytes bits (i + 8)
      else [])"
  by pat_completeness auto
termination
  by (relation "measure (\<lambda>(bits, i). length bits - i)") auto

declare base32_bytes.simps [simp del]

definition base32Decode :: "runtime \<Rightarrow> js_string \<Rightarrow> error + u8 list" where
  "base32Decode rt encoded =
     (let encoded = toUpperCase rt (remove_chars (\<lambda>x. x = cu CHR ''='') encoded)
      in case base32_bits [] encoded of
           Inl err \<Rightarrow> Inl err
         | Inr bits \<Rightarrow> Inr (map of_nat (base32_bytes bits 0)))"

section \<open>Secret normalisation and validation\<close>

definition clean_secret :: "runtime \<Rightarrow> js_string \<Rightarrow> js_string" where
  "clean_secret rt secret =
     (let cleaned =
            toUpperCase rt (remove_chars (\<lambda>x. whiteSpace rt x \<or> x = cu CHR ''-'') secret)
      in replace_char (cu CHR ''1'') (cu CHR ''I'')
           (replace_char (cu CHR ''0'') (cu CHR ''O'') cleaned))"

text \<open>
  \<open>/^[A-Z2-7=]+$/.test(s)\<close>: the class is two ranges of code units and \<open>=\<close>; the pattern
  matches one or more code units of the class, from the start of the string to its end.
\<close>

definition base32_class :: "code_unit \<Rightarrow> bool" where
  "base32_class c =
     ((cu CHR ''A'' \<le> c \<and> c \<le> cu CHR ''Z'') \<or> (cu CHR ''2'' \<le> c \<and> c \<le> cu CHR ''7'') \<or>
      c = cu CHR ''='')"

fun test_plus :: "(code_unit \<Rightarrow> bool) \<Rightarrow> js_string \<Rightarrow> bool" where
  "test_plus cls [] = False"
| "test_plus cls (c # cs) = (cls c \<and> (cs = [] \<or> test_plus cls cs))"

definition validateSecret_try :: "runtime \<Rightarrow> js_string \<Rightarrow> error + bool" where
  "validateSecret_try rt secret =
     (let cleaned = clean_secret rt secret
      in Inr (test_plus base32_class cleaned \<and> length cleaned \<ge> 16))"

definition validateSecret :: "runtime \<Rightarrow> js_string \<Rightarrow> bool" where
  "validateSecret rt secret =
     (case validateSecret_try rt secret of Inl err \<Rightarrow> False | Inr b \<Rightarrow> b)"

section \<open>Code generation\<close>

text \<open>
  \<open>intToBytes\<close>: \<open>i\<close> runs from 7 down to 0; \<open>int & 0xff\<close> takes the number modulo
  \<open>2^32\<close> first.
\<close>

definition intToBytes :: "nat \<Rightarrow> u8 list" where
  "intToBytes n =
     fst (fold (\<lambda>i (bytes, int). (bytes[i := ucast ((word_of_nat int :: u32) AND 0xff)], int div 256))
            (rev [0..<8]) (replicate 8 0, n))"

text \<open>
  \<open>hmac[hmac.length - 1]\<close> reads index -1 of an empty array, which is \<open>undefined\<close> as
  every read outside the array.
\<close>

definition truncate_offset :: "u8 list \<Rightarrow> nat" where
  "truncate_offset hmac =
     (if hmac = [] then 0 else unat (byte_at hmac (length hmac - 1) AND 0x0F))"

definition dynamicTruncate :: "u8 list \<Rightarrow> nat" where
  "dynamicTruncate hmac =
     (let offset = truncate_offset hmac;
          code :: u32 =
            push_bit 24 (ucast (byte_at hmac offset AND 0x7F)) OR
            push_bit 16 (ucast (byte_at hmac (offset + 1) AND 0xFF)) OR
            push_bit 8 (ucast (byte_at hmac (offset + 2) AND 0xFF)) OR
            ucast (byte_at hmac (offset + 3) AND 0xFF)
      in unat code mod 10 ^ codeDigits)"

text \<open>
  \<open>generate\<close> is an async function: its result is the settled promise, \<open>Inr\<close> a value
  and \<open>Inl\<close> a rejection. \<open>date_now\<close> is the value of \<open>Date.now()\<close>, in milliseconds,
  and \<open>time\<close> the optional argument.
\<close>

definition generate_try ::
  "runtime \<Rightarrow> subtle_crypto \<Rightarrow> nat \<Rightarrow> js_string \<Rightarrow> nat option \<Rightarrow> error + string" where
  "generate_try rt subtle date_now secret time =
     (let time = (case time of None \<Rightarrow> date_now div 1000 | Some t \<Rightarrow> t);
          counter = time div timeStep;
          cleanSecret = clean_secret rt secret
      in case base32Decode rt cleanSecret of
           Inl err \<Rightarrow> Inl err
         | Inr key \<Rightarrow>
            (case hmacSha1 subtle key (intToBytes counter) of
               Inl err \<Rightarrow> Inl err
             | Inr hmac \<Rightarrow>
                 Inr (padStart codeDigits CHR ''0'' (nat_toString 10 (dynamicTruncate hmac)))))"

definition generate ::
  "runtime \<Rightarrow> subtle_crypto \<Rightarrow> nat \<Rightarrow> js_string \<Rightarrow> nat option \<Rightarrow> error + string" where
  "generate rt subtle date_now secret time =
     (case generate_try rt subtle date_now secret time of
        Inl err \<Rightarrow> Inr ''ERROR''
      | Inr result \<Rightarrow> Inr result)"

section \<open>Countdown\<close>

text \<open>
  \<open>getRemainingSeconds()\<close> declares no parameter and reads the clock. A call may still
  pass arguments, which JavaScript drops: \<open>getRemainingSeconds_call\<close> is such a call.
\<close>

definition getRemainingSeconds :: "nat \<Rightarrow> nat" where
  "getRemainingSeconds date_now =
     (let now = date_now div 1000 in timeStep - now mod timeStep)"

definition getRemainingSeconds_call :: "nat \<Rightarrow> nat list \<Rightarrow> nat" where
  "getRemainingSeconds_call date_now args = getRemainingSeconds date_now"

section \<open>A runtime for ASCII strings\<close>

text \<open>
  The closed examples below run the program on literals of ASCII characters. On such
  strings every JavaScript engine agrees with \<open>ascii_runtime\<close>: the class \<open>\s\<close> is the
  list of ECMAScript (white space and line terminators), and \<open>toUpperCase\<close> maps the
  letters a to z to A to Z and leaves every other ASCII character unchanged. (Beyond
  ASCII \<open>ascii_toUpperCase\<close> is not \<open>toUpperCase\<close>; the general theorems do not use it.)
\<close>

definition ecma_whiteSpace :: "code_unit \<Rightarrow> bool" where
  "ecma_whiteSpace c =
     (c \<in> set [0x0009, 0x000A, 0x000B, 0x000C, 0x000D, 0x0020, 0x00A0, 0x1680, 0x2000, 0x2001,
               0x2002, 0x2003, 0x2004, 0x2005, 0x2006, 0x2007, 0x2008, 0x2009, 0x200A, 0x2028,
               0x2029, 0x202F, 0x205F, 0x3000, 0xFEFF])"

definition ascii_toUpperCase :: "js_string \<Rightarrow> js_string" where
  "ascii_toUpperCase s = map (\<lambda>c. if cu CHR ''a'' \<le> c \<and> c \<le> cu CHR ''z'' then c - 32 else c) s"

definition ascii_runtime :: runtime where
  "ascii_runtime = \<lparr>whiteSpace = ecma_whiteSpace, toUpperCase = ascii_toUpperCase\<rparr>"

section \<open>Auxiliary definitions\<close>

text \<open>The text that \<open>base32Decode\<close> decodes: padding removed, then upper-cased.\<close>

definition base32_text :: "runtime \<Rightarrow> js_string \<Rightarrow> js_string" where
  "base32_text rt encoded = toUpperCase rt (remove_chars (\<lambda>x. x = cu CHR ''='') encoded)"

text \<open>The 5-bit value of a character of the alphabet, and its five binary digits.\<close>

definition base32_value :: "code_unit \<Rightarrow> nat" where
  "base32_value c = (case indexOf base32Chars c of Some i \<Rightarrow> i | None \<Rightarrow> 0)"

definition bits5 :: "code_unit \<Rightarrow> string" where
  "bits5 c = padStart 5 CHR ''0'' (nat_toString 2 (base32_value c))"

definition is_digit :: "char \<Rightarrow> bool" where
  "is_digit c = (c \<in> set ''0123456789'')"

section \<open>Secret validation\<close>

lemma length_utf16 [simp]: "length (utf16 s) = length s"
  by (simp add: utf16_def)

lemma test_plus_iff: "test_plus cls s = (s \<noteq> [] \<and> list_all cls s)"
  by (induction s) auto

lemma base32_class_iff:
  "base32_class c = (c \<in> set (utf16 ''ABCDEFGHIJKLMNOPQRSTUVWXYZ234567=''))"
  by (simp add: base32_class_def utf16_def cu_def) arith

text \<open>
  Claim C9. For every input string and every engine, \<open>validateSecret\<close> does not throw (the
  body of its \<open>try\<close> always returns) and it returns true exactly when the normalised string
  is non-empty, consists of characters of \<open>[A-Z2-7=]\<close> only, and has length at least 16. The
  normalised string is the input with white space (the engine's \<open>\s\<close>) and dashes removed,
  then upper-cased by the engine's \<open>toUpperCase\<close>, then with 0 replaced by O and 1 by I.
\<close>

theorem validateSecret_iff:
  "(\<exists>b. validateSecret_try rt raw = Inr b \<and> validateSecret rt raw = b) \<and>
   validateSecret rt raw =
     (let normalized =
            map (\<lambda>c. if c = cu CHR ''0'' then cu CHR ''O''
                      else if c = cu CHR ''1'' then cu CHR ''I'' else c)
              (toUpperCase rt (filter (\<lambda>c. \<not> whiteSpace rt c \<and> c \<noteq> cu CHR ''-'') raw))
      in normalized \<noteq> [] \<and>
         set normalized \<subseteq> set (utf16 ''ABCDEFGHIJKLMNOPQRSTUVWXYZ234567='') \<and>
         16 \<le> length normalized)"
proof -
  have n: "clean_secret rt raw =
     map (\<lambda>c. if c = cu CHR ''0'' then cu CHR ''O''
               else if c = cu CHR ''1'' then cu CHR ''I'' else c)
       (toUpperCase rt (filter (\<lambda>c. \<not> whiteSpace rt c \<and> c \<noteq> cu CHR ''-'') raw))"
    by (simp add: clean_secret_def remove_chars_def replace_char_def Let_def cu_def)
  have "list_all base32_class xs = (set xs \<subseteq> set (utf16 ''ABCDEFGHIJKLMNOPQRSTUVWXYZ234567=''))"
    for xs
    unfolding list_all_iff base32_class_iff by blast
  then show ?thesis
    unfolding n [symmetric]
    by (simp add: validateSecret_def validateSecret_try_def test_plus_iff Let_def)
qed

lemmas string_eval = utf16_def cu_def ascii_runtime_def ecma_whiteSpace_def
  ascii_toUpperCase_def

theorem validateSecret_iff_witness:
  "validateSecret ascii_runtime (utf16 ''jbsw y3dp-ehpk 3pxp'') \<and>
   validateSecret ascii_runtime (utf16 ''JBSWY3DPEHPK3PXP'' @ [0x00A0]) \<and>
   \<not> validateSecret ascii_runtime (utf16 ''12345'')"
  using validateSecret_iff [of ascii_runtime "utf16 ''jbsw y3dp-ehpk 3pxp''"]
    validateSecret_iff [of ascii_runtime "utf16 ''JBSWY3DPEHPK3PXP'' @ [0x00A0]"]
    validateSecret_iff [of ascii_runtime "utf16 ''12345''"]
  by (simp add: string_eval)

section \<open>Countdown\<close>

text \<open>
  Claim C6, as the code has it. \<open>getRemainingSeconds\<close> has no timestamp parameter: whatever
  arguments a call passes, it reads the clock, and with \<open>now = floor(Date.now() / 1000)\<close> it
  returns \<open>30 - now mod 30\<close>, a number from 1 to 30: 30 when \<open>now mod 30 = 0\<close> and 1 when
  \<open>now mod 30 = 29\<close>.
\<close>

theorem getRemainingSeconds_clock:
  "getRemainingSeconds_call date_now args = 30 - (date_now div 1000) mod 30 \<and>
   1 \<le> getRemainingSeconds_call date_now args \<and>
   getRemainingSeconds_call date_now args \<le> 30 \<and>
   ((date_now div 1000) mod 30 = 0 \<longrightarrow> getRemainingSeconds_call date_now args = 30) \<and>
   ((date_now div 1000) mod 30 = 29 \<longrightarrow> getRemainingSeconds_call date_now args = 1)"
proof -
  have "(date_now div 1000) mod 30 < 30" by simp
  then show ?thesis
    by (auto simp add: getRemainingSeconds_call_def getRemainingSeconds_def timeStep_def Let_def)
qed

theorem getRemainingSeconds_clock_witness:
  "(60000 div 1000) mod 30 = (0::nat) \<and> getRemainingSeconds_call 60000 [] = 30 \<and>
   (59999 div 1000) mod 30 = (29::nat) \<and> getRemainingSeconds_call 59999 [] = 1"
  using getRemainingSeconds_clock [of 60000 "[]"] getRemainingSeconds_clock [of 59999 "[]"]
  by simp

text \<open>
  Claim C6 as stated fails: called with the timestamp 29 while the clock shows 0, the
  function returns 30 and not \<open>30 - 29 mod 30 = 1\<close>.
\<close>

theorem getRemainingSeconds_ignores_argument:
  "getRemainingSeconds_call 0 [29] \<noteq> 30 - 29 mod 30"
  by (simp add: getRemainingSeconds_call_def getRemainingSeconds_def timeStep_def)

section \<open>Dynamic truncation\<close>

lemma truncate_offset_le: "truncate_offset hmac \<le> 15"
proof -
  have "unat (byte_at hmac (length hmac - 1) AND 0x0F) \<le> unat (0x0F :: u8)"
    by (rule word_and_le1 [THEN word_le_nat_alt [THEN iffD1]])
  then show ?thesis by (simp add: truncate_offset_def)
qed

text \<open>
  Claim C10. On a 20-byte digest the offset is \<open>digest[19] & 0x0F\<close>, at most 15, the four
  indices \<open>offset\<close> to \<open>offset + 3\<close> are at most 18 and inside the digest, and
  \<open>dynamicTruncate\<close> returns the value computed from the four bytes of the digest at these
  indices: no read leaves the digest, whatever its content.
\<close>

theorem dynamicTruncate_in_bounds:
  assumes "length hmac = 20"
  shows "(let offset = unat (hmac ! 19 AND 0x0F)
          in offset \<le> 15 \<and> offset + 3 \<le> 18 \<and> offset + 3 < length hmac \<and>
             truncate_offset hmac = offset \<and>
             dynamicTruncate hmac =
               unat (push_bit 24 (ucast (hmac ! offset AND 0x7F)) OR
                     push_bit 16 (ucast (hmac ! (offset + 1) AND 0xFF)) OR
                     push_bit 8 (ucast (hmac ! (offset + 2) AND 0xFF)) OR
                     (ucast (hmac ! (offset + 3) AND 0xFF) :: u32)) mod 10 ^ 6)"
proof -
  have ne: "hmac \<noteq> []" using assms by auto
  have off: "truncate_offset hmac \<le> 15" by (rule truncate_offset_le)
  have eq: "truncate_offset hmac = unat (hmac ! 19 AND 0x0F)"
    using assms ne by (simp add: truncate_offset_def byte_at_def)
  have rd: "byte_at hmac (truncate_offset hmac + k) = hmac ! (truncate_offset hmac + k)"
    if "k < 4" for k
    using off assms that by (simp add: byte_at_def)
  have "dynamicTruncate hmac =
        unat (push_bit 24 (ucast (hmac ! truncate_offset hmac AND 0x7F)) OR
              push_bit 16 (ucast (hmac ! (truncate_offset hmac + 1) AND 0xFF)) OR
              push_bit 8 (ucast (hmac ! (truncate_offset hmac + 2) AND 0xFF)) OR
              (ucast (hmac ! (truncate_offset hmac + 3) AND 0xFF) :: u32)) mod 10 ^ 6"
    using rd [of 0] rd [of 1] rd [of 2] rd [of 3]
    by (simp add: dynamicTruncate_def Let_def codeDigits_def)
  then show ?thesis
    using off assms unfolding eq Let_def by simp
qed

theorem dynamicTruncate_in_bounds_witness:
  "length [0x1f, 0x86, 0x98, 0x69, 0x0e, 0x02, 0xca, 0x16, 0x61, 0x85,
           0x50, 0xef, 0x7f, 0x19, 0xda, 0x8e, 0x94, 0x5b, 0x55, 0x5a :: u8] = 20 \<and>
   truncate_offset [0x1f, 0x86, 0x98, 0x69, 0x0e, 0x02, 0xca, 0x16, 0x61, 0x85,
                    0x50, 0xef, 0x7f, 0x19, 0xda, 0x8e, 0x94, 0x5b, 0x55, 0x5a] = 10 \<and>
   dynamicTruncate [0x1f, 0x86, 0x98, 0x69, 0x0e, 0x02, 0xca, 0x16, 0x61, 0x85,
                    0x50, 0xef, 0x7f, 0x19, 0xda, 0x8e, 0x94, 0x5b, 0x55, 0x5a] = 872921"
  using dynamicTruncate_in_bounds
    [of "[0x1f, 0x86, 0x98, 0x69, 0x0e, 0x02, 0xca, 0x16, 0x61, 0x85,
          0x50, 0xef, 0x7f, 0x19, 0xda, 0x8e, 0x94, 0x5b, 0x55, 0x5a]"]
  by (simp add: Let_def)

section \<open>The engines never fail\<close>

lemma sha1_padded_length_ge: "n + 9 \<le> sha1_padded_length n"
  by (simp add: sha1_padded_length_def)

lemma sha1_preprocess_Inr: "\<exists>pd. sha1_preprocess data = Inr pd"
  using sha1_padded_length_ge [of "length data"]
  by (simp add: sha1_preprocess_def typed_set_def Let_def)

lemma length_sha1_result: "length (sha1_result h) = 20"
  by (cases h) (simp add: sha1_result_def upt_rec)

lemma sha1Simple_Inr: "\<exists>r. sha1Simple data = Inr r \<and> length r = 20"
  using sha1_preprocess_Inr [of data]
  by (auto simp add: sha1Simple_def length_sha1_result)

lemma join_arrays_eq: "join_arrays a b = Inr (a @ b)"
  by (simp add: join_arrays_def typed_set_def)

lemma length_hmac_pad: "length (hmac_pad c k) = 64"
  by (simp add: hmac_pad_def blockSize_def)

lemma hmacSha1Simple_Inr: "\<exists>r. hmacSha1Simple key message = Inr r \<and> length r = 20"
proof -
  obtain k where k: "(if length key > blockSize then sha1Simple key else Inr key) = Inr k"
    and lk: "length k \<le> blockSize"
    using sha1Simple_Inr [of key] by (cases "length key > blockSize") (auto simp add: blockSize_def)
  obtain pk where pk: "typed_set (replicate blockSize 0) k 0 = Inr pk"
    using lk by (simp add: typed_set_def)
  obtain ih where ih: "sha1Simple (hmac_pad 0x36 pk @ message) = Inr ih"
    using sha1Simple_Inr by blast
  obtain r where r: "sha1Simple (hmac_pad 0x5c pk @ ih) = Inr r" "length r = 20"
    using sha1Simple_Inr by blast
  show ?thesis
    unfolding hmacSha1Simple_def k by (simp add: pk Let_def join_arrays_eq ih r)
qed

lemma hmacSha1_Inr: "\<exists>r. hmacSha1 subtle key message = Inr r"
  using hmacSha1Simple_Inr [of key message]
  by (auto simp add: hmacSha1_def split: option.splits)

subsection \<open>Decimal strings\<close>

lemma digit_char_digit: "d < 10 \<Longrightarrow> is_digit (digit_char d)"
proof -
  assume "d < 10"
  then have "d \<in> set [0..<10]" by simp
  then show ?thesis
    unfolding is_digit_def digit_char_def by (simp add: upt_rec) (elim disjE; simp)
qed

lemma nat_toString_10_digits: "list_all is_digit (nat_toString 10 n)"
proof (induction "10::nat" n rule: nat_toString.induct)
  case (1 n)
  show ?case
  proof (cases "n < 10")
    case True
    then show ?thesis by (subst nat_toString.simps) (simp add: digit_char_digit)
  next
    case False
    then have "list_all is_digit (nat_toString 10 (n div 10))" using "1" by simp
    with False show ?thesis by (subst nat_toString.simps) (simp add: digit_char_digit)
  qed
qed

lemma nat_toString_10_length: "n < 10 ^ Suc k \<Longrightarrow> length (nat_toString 10 n) \<le> Suc k"
proof (induction k arbitrary: n)
  case 0
  then show ?case by (subst nat_toString.simps) simp
next
  case (Suc k)
  show ?case
  proof (cases "n < 10")
    case True
    then show ?thesis by (subst nat_toString.simps) simp
  next
    case False
    have "n div 10 < 10 ^ Suc k" using Suc.prems by (simp add: less_mult_imp_div_less)
    then have "length (nat_toString 10 (n div 10)) \<le> Suc k" by (rule Suc.IH)
    with False show ?thesis by (subst nat_toString.simps) simp
  qed
qed

lemma dynamicTruncate_less: "dynamicTruncate hmac < 10 ^ 6"
  by (simp add: dynamicTruncate_def codeDigits_def Let_def)

lemma code_string:
  assumes "n < 10 ^ 6"
  shows "length (padStart codeDigits CHR ''0'' (nat_toString 10 n)) = 6 \<and>
         list_all is_digit (padStart codeDigits CHR ''0'' (nat_toString 10 n))"
proof -
  have "n < 10 ^ Suc 5" using assms by simp
  then have "length (nat_toString 10 n) \<le> Suc 5" by (rule nat_toString_10_length)
  moreover have "is_digit CHR ''0''" by (simp add: is_digit_def)
  ultimately show ?thesis
    using nat_toString_10_digits [of n]
    by (auto simp add: padStart_def codeDigits_def list_all_iff)
qed

section \<open>Base32 decoding\<close>

lemma indexOf_None: "indexOf xs x = None \<longleftrightarrow> x \<notin> set xs"
  by (induction xs) auto

lemma indexOf_less: "indexOf xs x = Some i \<Longrightarrow> i < length xs"
  by (induction xs arbitrary: i) (auto split: if_splits)

lemma base32_bits_eq:
  "base32_bits acc e =
     (if \<forall>c \<in> set e. c \<in> set base32Chars then Inr (acc @ concat (map bits5 e))
      else Inl (InvalidBase32Character (hd (filter (\<lambda>c. c \<notin> set base32Chars) e))))"
proof (induction e arbitrary: acc)
  case Nil
  then show ?case by simp
next
  case (Cons c e)
  show ?case
  proof (cases "indexOf base32Chars c")
    case None
    then have "c \<notin> set base32Chars" by (simp add: indexOf_None)
    with None show ?thesis by simp
  next
    case (Some i)
    then have mem: "c \<in> set base32Chars" using indexOf_None [of base32Chars c] by auto
    have b: "padStart 5 CHR ''0'' (nat_toString 2 i) = bits5 c"
      using Some by (simp add: bits5_def base32_value_def)
    show ?thesis using Some mem by (simp add: Cons.IH b)
  qed
qed

lemma binary5:
  assumes "n < 32"
  shows "padStart 5 CHR ''0'' (nat_toString 2 n) =
         map (\<lambda>j. if bit n (4 - j) then CHR ''1'' else CHR ''0'') [0..<5]"
proof -
  have "n \<in> {0, 1, 2, 3, 4, 5, 6, 7, 8, 9, 10, 11, 12, 13, 14, 15, 16, 17, 18, 19, 20, 21, 22, 23, 24, 25, 26, 27, 28, 29, 30, 31}"
    using assms by (simp, arith)
  then show ?thesis
    by (elim insertE emptyE;
        simp add: padStart_def nat_toString.simps digit_char_def bit_iff_odd upt_rec;
        simp add: eval_nat_numeral)
qed

lemma base32_value_less: "base32_value c < 32"
proof (cases "indexOf base32Chars c")
  case None
  then show ?thesis by (simp add: base32_value_def)
next
  case (Some i)
  then show ?thesis using indexOf_less [OF Some] by (simp add: base32_value_def base32Chars_def)
qed

lemma bits5_bits:
  "bits5 c = map (\<lambda>j. if bit (base32_value c) (4 - j) then CHR ''1'' else CHR ''0'') [0..<5]"
  unfolding bits5_def by (rule binary5) (rule base32_value_less)

lemma length_bits5: "length (bits5 c) = 5"
  by (simp add: bits5_bits)

lemma nth_bits5: "j < 5 \<Longrightarrow> bits5 c ! j = (if bit (base32_value c) (4 - j) then CHR ''1'' else CHR ''0'')"
  by (simp add: bits5_bits)

lemma nth_concat_uniform:
  assumes "\<And>x. length (f x) = n" "m < n * length xs"
  shows "concat (map f xs) ! m = f (xs ! (m div n)) ! (m mod n)"
  using assms(2)
proof (induction xs arbitrary: m)
  case Nil
  then show ?case by simp
next
  case (Cons x xs)
  have n: "0 < n" using Cons.prems by (cases n) auto
  show ?case
  proof (cases "m < n")
    case True
    then show ?thesis by (simp add: nth_append assms(1))
  next
    case False
    then have "m - n < n * length xs" using Cons.prems by (simp add: algebra_simps)
    then have "concat (map f xs) ! (m - n) = f (xs ! ((m - n) div n)) ! ((m - n) mod n)"
      by (rule Cons.IH)
    moreover have "(m - n) div n = m div n - 1" "(m - n) mod n = m mod n"
      using False n by (simp_all add: le_div_geq le_mod_geq)
    moreover have "0 < m div n" using False n by (simp add: div_greater_zero_iff)
    ultimately show ?thesis using False
      by (simp add: nth_append assms(1) nth_Cons')
  qed
qed

lemma length_concat_uniform:
  assumes "\<And>x. length (f x) = n"
  shows "length (concat (map f xs)) = n * length xs"
  by (induction xs) (simp_all add: assms)

lemma parseInt2_snoc:
  "parseInt2 (cs @ [c]) = 2 * parseInt2 cs + (if c = CHR ''1'' then 1 else 0)"
  by (simp add: parseInt2_def)

lemma bit_parseInt2:
  "j < length cs \<Longrightarrow> bit (parseInt2 cs) (length cs - 1 - j) = (cs ! j = CHR ''1'')"
proof (induction cs rule: rev_induct)
  case Nil
  then show ?case by simp
next
  case (snoc c cs)
  show ?case
  proof (cases "j < length cs")
    case True
    then have "length (cs @ [c]) - 1 - j = Suc (length cs - 1 - j)" by simp
    then show ?thesis using True snoc.IH
      by (simp add: parseInt2_snoc bit_Suc nth_append)
  next
    case False
    then have "j = length cs" using snoc.prems by simp
    then show ?thesis by (simp add: parseInt2_snoc bit_0)
  qed
qed

lemma base32_bytes_length: "length (base32_bytes bits i) = (length bits - i) div 8"
proof (induction bits i rule: base32_bytes.induct)
  case (1 bits i)
  show ?case
  proof (cases "i + 8 \<le> length bits")
    case True
    then have "(length bits - i) div 8 = Suc ((length bits - (i + 8)) div 8)"
      by arith
    then show ?thesis using True "1" by (subst base32_bytes.simps) simp
  next
    case False
    then show ?thesis by (subst base32_bytes.simps) simp
  qed
qed

lemma base32_bytes_nth:
  "k < (length bits - i) div 8 \<Longrightarrow>
   base32_bytes bits i ! k = parseInt2 (take 8 (drop (i + 8 * k) bits))"
proof (induction bits i arbitrary: k rule: base32_bytes.induct)
  case (1 bits i)
  have le: "i + 8 \<le> length bits" using "1.prems" by (cases "i + 8 \<le> length bits") auto
  show ?case
  proof (cases k)
    case 0
    then show ?thesis using le by (subst base32_bytes.simps) simp
  next
    case (Suc k')
    have "(length bits - i) div 8 = Suc ((length bits - (i + 8)) div 8)"
      using le by arith
    then have "k' < (length bits - (i + 8)) div 8" using "1.prems" Suc by simp
    then have "base32_bytes bits (i + 8) ! k' = parseInt2 (take 8 (drop (i + 8 + 8 * k') bits))"
      using "1.IH" le by simp
    then show ?thesis using le Suc by (subst base32_bytes.simps) (simp add: add.assoc)
  qed
qed

lemma base32Decode_eq:
  "base32Decode rt encoded =
     (if \<forall>c \<in> set (base32_text rt encoded). c \<in> set base32Chars
      then Inr (map of_nat (base32_bytes (concat (map bits5 (base32_text rt encoded))) 0))
      else Inl (InvalidBase32Character
                  (hd (filter (\<lambda>c. c \<notin> set base32Chars) (base32_text rt encoded)))))"
  by (simp add: base32Decode_def base32_text_def base32_bits_eq Let_def)

lemma hd_filter_mem: "\<exists>x \<in> set xs. P x \<Longrightarrow> hd (filter P xs) \<in> set xs \<and> P (hd (filter P xs))"
proof -
  assume "\<exists>x \<in> set xs. P x"
  then have "filter P xs \<noteq> []" by (simp add: filter_empty_conv)
  then have "hd (filter P xs) \<in> set (filter P xs)" by (rule hd_in_set)
  then show ?thesis by simp
qed

lemma base32_byte_bit:
  assumes "k < 5 * length e div 8" "j < 8"
  shows "bit (of_nat (base32_bytes (concat (map bits5 e)) 0 ! k) :: u8) (7 - j) =
         bit (base32_value (e ! ((8 * k + j) div 5))) (4 - (8 * k + j) mod 5)"
proof -
  let ?B = "concat (map bits5 e)"
  have len: "length ?B = 5 * length e"
    by (rule length_concat_uniform) (rule length_bits5)
  have k8: "8 * k + 8 \<le> length ?B" using assms(1) len by simp
  let ?cs = "take 8 (drop (8 * k) ?B)"
  have lcs: "length ?cs = 8" using k8 by simp
  have byte: "base32_bytes ?B 0 ! k = parseInt2 ?cs"
    using base32_bytes_nth [of k ?B 0] assms(1) len by simp
  have "j < length ?cs" unfolding lcs by (rule assms(2))
  then have "bit (parseInt2 ?cs) (length ?cs - 1 - j) = (?cs ! j = CHR ''1'')"
    by (rule bit_parseInt2)
  then have b1: "bit (parseInt2 ?cs) (7 - j) = (?cs ! j = CHR ''1'')" unfolding lcs by simp
  have m: "8 * k + j < 5 * length e" using k8 assms(2) len by simp
  have "j < length ?B - 8 * k" using k8 assms(2) by linarith
  then have "?cs ! j = ?B ! (8 * k + j)" using assms(2) by simp
  also have "\<dots> = bits5 (e ! ((8 * k + j) div 5)) ! ((8 * k + j) mod 5)"
    by (rule nth_concat_uniform) (simp_all add: length_bits5 m)
  finally have b2: "(?cs ! j = CHR ''1'') =
      bit (base32_value (e ! ((8 * k + j) div 5))) (4 - (8 * k + j) mod 5)"
    by (simp add: nth_bits5)
  have "7 - j < 8" by simp
  then have "bit (of_nat (parseInt2 ?cs) :: u8) (7 - j) = bit (parseInt2 ?cs) (7 - j)"
    by (simp add: bit_of_nat_iff bit_simps)
  then show ?thesis using byte b1 b2 by simp
qed

text \<open>
  Claim C8, as the code has it. \<open>base32Decode\<close> removes every \<open>=\<close> first (the result is
  that of the input without its \<open>=\<close>, so padding never causes a failure) and upper-cases
  the rest with the engine's \<open>toUpperCase\<close>, which may change the number of characters. It
  fails with an invalid-character error exactly when a character of the upper-cased text
  is outside the alphabet \<open>A-Z2-7\<close>. Otherwise the result has \<open>floor(5n/8)\<close> bytes for the
  \<open>n\<close> characters of the upper-cased text, and bit \<open>j\<close> (from the most significant) of
  byte \<open>k\<close> is bit \<open>8k + j\<close> of the concatenation, in order, of the 5-bit values of these
  characters: groups of eight from the front, an incomplete last group being dropped.
\<close>

theorem base32Decode_upper:
  "((\<forall>c \<in> set (base32_text rt s). c \<in> set base32Chars) \<longrightarrow>
      (\<exists>bs. base32Decode rt s = Inr bs \<and> length bs = 5 * length (base32_text rt s) div 8 \<and>
        (\<forall>k < length bs. \<forall>j < 8.
           bit (bs ! k) (7 - j) =
           bit (base32_value (base32_text rt s ! ((8 * k + j) div 5)))
             (4 - (8 * k + j) mod 5)))) \<and>
   (\<not> (\<forall>c \<in> set (base32_text rt s). c \<in> set base32Chars) \<longrightarrow>
      (\<exists>c \<in> set (base32_text rt s). c \<notin> set base32Chars \<and>
         base32Decode rt s = Inl (InvalidBase32Character c))) \<and>
   base32_text rt s = toUpperCase rt (filter (\<lambda>x. x \<noteq> cu CHR ''='') s) \<and>
   base32Decode rt s = base32Decode rt (filter (\<lambda>x. x \<noteq> cu CHR ''='') s)"
proof (intro conjI impI)
  assume ok: "\<forall>c \<in> set (base32_text rt s). c \<in> set base32Chars"
  let ?e = "base32_text rt s"
  let ?bs = "map of_nat (base32_bytes (concat (map bits5 ?e)) 0) :: u8 list"
  have len: "length (concat (map bits5 ?e)) = 5 * length ?e"
    by (rule length_concat_uniform) (rule length_bits5)
  have l: "length ?bs = 5 * length ?e div 8"
    by (simp add: base32_bytes_length len)
  have "\<forall>k < length ?bs. \<forall>j < 8.
           bit (?bs ! k) (7 - j) =
           bit (base32_value (?e ! ((8 * k + j) div 5))) (4 - (8 * k + j) mod 5)"
  proof (intro allI impI)
    fix k j :: nat
    assume k: "k < length ?bs" and j: "j < 8"
    have k': "k < 5 * length ?e div 8" using k l by simp
    have "?bs ! k = of_nat (base32_bytes (concat (map bits5 ?e)) 0 ! k)"
      using k by simp
    then show "bit (?bs ! k) (7 - j) =
           bit (base32_value (?e ! ((8 * k + j) div 5))) (4 - (8 * k + j) mod 5)"
      using base32_byte_bit [OF k' j] by simp
  qed
  then show "\<exists>bs. base32Decode rt s = Inr bs \<and> length bs = 5 * length ?e div 8 \<and>
        (\<forall>k < length bs. \<forall>j < 8.
           bit (bs ! k) (7 - j) =
           bit (base32_value (?e ! ((8 * k + j) div 5))) (4 - (8 * k + j) mod 5))"
    using ok l by (intro exI [of _ ?bs]) (simp add: base32Decode_eq)
next
  assume bad: "\<not> (\<forall>c \<in> set (base32_text rt s). c \<in> set base32Chars)"
  then have "\<exists>x \<in> set (base32_text rt s). x \<notin> set base32Chars" by simp
  then have "hd (filter (\<lambda>c. c \<notin> set base32Chars) (base32_text rt s)) \<in> set (base32_text rt s) \<and>
             hd (filter (\<lambda>c. c \<notin> set base32Chars) (base32_text rt s)) \<notin> set base32Chars"
    by (rule hd_filter_mem)
  then show "\<exists>c \<in> set (base32_text rt s). c \<notin> set base32Chars \<and>
         base32Decode rt s = Inl (InvalidBase32Character c)"
    using bad by (auto simp add: base32Decode_eq)
next
  show "base32_text rt s = toUpperCase rt (filter (\<lambda>x. x \<noteq> cu CHR ''='') s)"
    by (simp add: base32_text_def remove_chars_def)
next
  show "base32Decode rt s = base32Decode rt (filter (\<lambda>x. x \<noteq> cu CHR ''='') s)"
    by (simp add: base32Decode_def remove_chars_def)
qed

lemmas decode_eval = string_eval base32_text_def remove_chars_def replace_char_def
  base32Chars_def clean_secret_def

theorem base32Decode_upper_witness:
  "base32_text ascii_runtime (utf16 ''mfrgg==='') = utf16 ''MFRGG'' \<and>
   (\<exists>bs. base32Decode ascii_runtime (utf16 ''mfrgg==='') = Inr bs \<and> length bs = 3) \<and>
   base32_text ascii_runtime (utf16 ''a!'') = utf16 ''A!'' \<and>
   base32Decode ascii_runtime (utf16 ''a!'') = Inl (InvalidBase32Character (cu CHR ''!''))"
proof -
  have a: "base32_text ascii_runtime (utf16 ''mfrgg==='') = utf16 ''MFRGG''"
    and b: "base32_text ascii_runtime (utf16 ''a!'') = utf16 ''A!''"
    by (simp_all add: decode_eval)
  have "\<exists>bs. base32Decode ascii_runtime (utf16 ''mfrgg==='') = Inr bs \<and> length bs = 3"
    using base32Decode_upper [of ascii_runtime "utf16 ''mfrgg===''", THEN conjunct1] unfolding a
    by (auto simp add: base32Chars_def utf16_def cu_def)
  moreover have
    "base32Decode ascii_runtime (utf16 ''a!'') = Inl (InvalidBase32Character (cu CHR ''!''))"
    using base32Decode_upper [of ascii_runtime "utf16 ''a!''", THEN conjunct2, THEN conjunct1]
    unfolding b
    by (auto simp add: base32Chars_def utf16_def cu_def)
  ultimately show ?thesis using a b by simp
qed

lemma decode_eq_bits:
  "base32_bits [] (toUpperCase rt (remove_chars (\<lambda>x. x = cu CHR ''='') e)) = r \<Longrightarrow>
   base32Decode rt e = (case r of Inl err \<Rightarrow> Inl err
                        | Inr bits \<Rightarrow> Inr (map of_nat (base32_bytes bits 0)))"
  by (simp add: base32Decode_def Let_def)

lemmas bits_eval = base32_bits.simps indexOf.simps padStart_def nat_toString.simps
  digit_char_def

text \<open>
  Claim C8 as stated fails: the letter \<open>a\<close> is outside the alphabet \<open>A-Z2-7\<close>, and
  \<open>base32Decode\<close> decodes the string \<open>ab\<close> all the same, as it decodes \<open>AB\<close>.
\<close>

theorem base32Decode_accepts_lower_case:
  "cu CHR ''a'' \<notin> set base32Chars \<and> base32Decode ascii_runtime (utf16 ''ab'') = Inr [0]"
proof -
  have "base32_bits [] (toUpperCase ascii_runtime
          (remove_chars (\<lambda>x. x = cu CHR ''='') (utf16 ''ab''))) = Inr ''0000000001''"
    by (simp add: decode_eval bits_eval) (simp add: eval_nat_numeral)
  then have "base32Decode ascii_runtime (utf16 ''ab'') =
      Inr (map of_nat (base32_bytes ''0000000001'' 0))"
    by (simp add: decode_eq_bits)
  moreover have "base32_bytes ''0000000001'' 0 = [0]"
    by (simp add: base32_bytes.simps parseInt2_def)
  ultimately show ?thesis by (simp add: base32Chars_def utf16_def cu_def)
qed

section \<open>Code generation\<close>

lemma base32_class_text:
  assumes "base32_class c" "c \<noteq> cu CHR ''=''"
  shows "c \<in> set base32Chars"
  using assms unfolding base32_class_iff base32Chars_def by (simp add: utf16_def)

lemma valid_secret_text:
  assumes "validateSecret rt secret"
    and "\<And>s. set s \<subseteq> set base32Chars \<Longrightarrow> toUpperCase rt s = s"
  shows "\<forall>c \<in> set (base32_text rt (clean_secret rt secret)). c \<in> set base32Chars"
proof -
  let ?t = "remove_chars (\<lambda>x. x = cu CHR ''='') (clean_secret rt secret)"
  have cls: "list_all base32_class (clean_secret rt secret)"
    using assms(1)
    by (simp add: validateSecret_def validateSecret_try_def test_plus_iff Let_def)
  have sub: "set ?t \<subseteq> set base32Chars"
  proof
    fix c assume "c \<in> set ?t"
    then have "c \<in> set (clean_secret rt secret)" "c \<noteq> cu CHR ''=''"
      by (simp_all add: remove_chars_def)
    then show "c \<in> set base32Chars"
      using cls base32_class_text [of c] by (simp add: list_all_iff)
  qed
  then have "toUpperCase rt ?t = ?t" by (rule assms(2))
  then show ?thesis using sub by (auto simp add: base32_text_def)
qed

lemma ascii_upper_fixed: "set s \<subseteq> set base32Chars \<Longrightarrow> toUpperCase ascii_runtime s = s"
proof -
  assume a: "set s \<subseteq> set base32Chars"
  have "c < 97" if "c \<in> set base32Chars" for c
    using that by (simp add: base32Chars_def utf16_def cu_def) arith
  then have "\<forall>c \<in> set s. \<not> (cu CHR ''a'' \<le> c \<and> c \<le> cu CHR ''z'')"
    using a by (fastforce simp add: cu_def)
  then show ?thesis
    by (auto simp add: ascii_runtime_def ascii_toUpperCase_def intro!: map_idI)
qed

text \<open>
  Claim C5. On every engine whose \<open>toUpperCase\<close> leaves the strings over \<open>A-Z2-7\<close>
  unchanged (as the Unicode case mapping does), for every secret that passes
  \<open>validateSecret\<close> and every timestamp, whatever the platform's HMAC primitive returns:
  the normalised secret decodes to a key, the HMAC stage yields a digest, and \<open>generate\<close>
  returns \<open>dynamicTruncate\<close> of that digest, which is below \<open>10^6\<close>, written in decimal
  and padded with zeros to exactly six characters, all of them decimal digits.
\<close>

theorem generate_six_digits:
  assumes "validateSecret rt secret"
    and "\<And>s. set s \<subseteq> set base32Chars \<Longrightarrow> toUpperCase rt s = s"
  shows "\<exists>key hmac.
           base32Decode rt (clean_secret rt secret) = Inr key \<and>
           hmacSha1 subtle key
             (intToBytes ((case time of None \<Rightarrow> date_now div 1000 | Some t \<Rightarrow> t) div 30)) =
             Inr hmac \<and>
           generate rt subtle date_now secret time =
             Inr (padStart 6 CHR ''0'' (nat_toString 10 (dynamicTruncate hmac))) \<and>
           dynamicTruncate hmac < 10 ^ 6 \<and>
           length (padStart 6 CHR ''0'' (nat_toString 10 (dynamicTruncate hmac))) = 6 \<and>
           set (padStart 6 CHR ''0'' (nat_toString 10 (dynamicTruncate hmac)))
             \<subseteq> set ''0123456789''"
proof -
  obtain key where key: "base32Decode rt (clean_secret rt secret) = Inr key"
    using valid_secret_text [OF assms] by (simp add: base32Decode_eq)
  let ?counter = "(case time of None \<Rightarrow> date_now div 1000 | Some t \<Rightarrow> t) div 30"
  obtain hmac where hmac: "hmacSha1 subtle key (intToBytes ?counter) = Inr hmac"
    using hmacSha1_Inr by blast
  let ?v = "dynamicTruncate hmac"
  have v: "?v < 10 ^ 6" by (rule dynamicTruncate_less)
  have g: "generate rt subtle date_now secret time =
          Inr (padStart 6 CHR ''0'' (nat_toString 10 ?v))"
    by (simp add: generate_def generate_try_def Let_def key hmac codeDigits_def timeStep_def)
  have "list_all is_digit (padStart 6 CHR ''0'' (nat_toString 10 ?v))"
    using code_string [OF v] by (simp add: codeDigits_def)
  then have d: "set (padStart 6 CHR ''0'' (nat_toString 10 ?v)) \<subseteq> set ''0123456789''"
    unfolding list_all_iff is_digit_def by blast
  have l: "length (padStart 6 CHR ''0'' (nat_toString 10 ?v)) = 6"
    using code_string [OF v] by (simp add: codeDigits_def)
  show ?thesis
    by (intro exI [of _ key] exI [of _ hmac] conjI key hmac g v l d)
qed

theorem generate_six_digits_witness:
  "validateSecret ascii_runtime (utf16 ''JBSWY3DPEHPK3PXP'') \<and>
   (\<exists>code. generate ascii_runtime None 0 (utf16 ''JBSWY3DPEHPK3PXP'') (Some 59) = Inr code \<and>
      length code = 6)"
proof -
  have v: "validateSecret ascii_runtime (utf16 ''JBSWY3DPEHPK3PXP'')"
    by (simp add: validateSecret_def validateSecret_try_def base32_class_def
        decode_eval Let_def)
  show ?thesis
    using v generate_six_digits
      [OF v ascii_upper_fixed, where subtle = None and time = "Some 59" and date_now = 0]
    by auto
qed

text \<open>
  Claim C3, as the code has it. When the normalised secret fails Base32 decoding,
  \<open>generate\<close> raises nothing: it catches the error and returns the fixed string \<open>ERROR\<close>,
  which differs from every code string of the success path.
\<close>

theorem generate_decode_failure:
  assumes "base32Decode rt (clean_secret rt secret) = Inl err"
  shows "generate rt subtle date_now secret time = Inr ''ERROR'' \<and>
         (\<forall>v. ''ERROR'' \<noteq> padStart codeDigits CHR ''0'' (nat_toString 10 v))"
proof -
  have "generate rt subtle date_now secret time = Inr ''ERROR''"
    by (simp add: generate_def generate_try_def Let_def assms)
  moreover have "\<forall>v. ''ERROR'' \<noteq> padStart codeDigits CHR ''0'' (nat_toString 10 v)"
  proof
    fix v
    have "6 \<le> length (padStart codeDigits CHR ''0'' (nat_toString 10 v))"
      by (simp add: padStart_def codeDigits_def)
    then show "''ERROR'' \<noteq> padStart codeDigits CHR ''0'' (nat_toString 10 v)"
    proof (rule contrapos_pn)
      assume "''ERROR'' = padStart codeDigits CHR ''0'' (nat_toString 10 v)"
      then have "length (padStart codeDigits CHR ''0'' (nat_toString 10 v)) = length ''ERROR''"
        by simp
      then show "\<not> 6 \<le> length (padStart codeDigits CHR ''0'' (nat_toString 10 v))"
        by simp
    qed
  qed
  ultimately show ?thesis by simp
qed

lemma decode_bang:
  "base32Decode ascii_runtime (clean_secret ascii_runtime (utf16 ''a!'')) =
     Inl (InvalidBase32Character (cu CHR ''!''))"
proof -
  have "base32_bits [] (toUpperCase ascii_runtime (remove_chars (\<lambda>x. x = cu CHR ''='')
          (clean_secret ascii_runtime (utf16 ''a!'')))) =
        Inl (InvalidBase32Character (cu CHR ''!''))"
    by (simp add: decode_eval bits_eval)
  then show ?thesis by (simp add: decode_eq_bits)
qed

theorem generate_decode_failure_witness:
  "base32Decode ascii_runtime (clean_secret ascii_runtime (utf16 ''a!'')) =
     Inl (InvalidBase32Character (cu CHR ''!'')) \<and>
   generate ascii_runtime None 0 (utf16 ''a!'') (Some 59) = Inr ''ERROR''"
  using generate_decode_failure [OF decode_bang, of None 0 "Some 59"] decode_bang by simp

lemma decode_plus:
  "base32Decode ascii_runtime (clean_secret ascii_runtime (utf16 ''0+1'')) =
     Inl (InvalidBase32Character (cu CHR ''+''))"
proof -
  have "base32_bits [] (toUpperCase ascii_runtime (remove_chars (\<lambda>x. x = cu CHR ''='')
          (clean_secret ascii_runtime (utf16 ''0+1'')))) =
        Inl (InvalidBase32Character (cu CHR ''+''))"
    by (simp add: decode_eval bits_eval)
  then show ?thesis by (simp add: decode_eq_bits)
qed

text \<open>
  Claim C3 as stated fails: on the secret \<open>0+1\<close>, whose normal form \<open>O+I\<close> does not
  decode, the promise is fulfilled with the fixed string \<open>ERROR\<close> and not rejected.
\<close>

theorem generate_returns_placeholder:
  "base32Decode ascii_runtime (clean_secret ascii_runtime (utf16 ''0+1'')) =
     Inl (InvalidBase32Character (cu CHR ''+'')) \<and>
   generate ascii_runtime None 0 (utf16 ''0+1'') (Some 59) = Inr ''ERROR''"
  by (simp add: generate_def generate_try_def Let_def decode_plus)

end
